theory Spec2Isabelle
  imports Complex_Main "HOL-Library.Word"
begin

unbundle bit_operations_syntax

section \<open>Data model (src/dxf/types.ts)\<close>

text \<open>
  A TypeScript \<open>number\<close> is modelled as a \<open>real\<close>: finite values with exact
  arithmetic. Rounding, overflow to \<open>Infinity\<close> and \<open>NaN\<close> are outside this model;
  where the source tests for them (\<open>Number.isFinite\<close>, \<open>Number.isNaN\<close>) the test
  is kept on the value that can carry them (the result of \<open>parseFloat\<close>/\<open>parseInt\<close>).
  A string is a \<open>char list\<close> of code units below 256.
  The fields \<open>x\<close>, \<open>y\<close> of \<open>DxfPoint\<close> are named \<open>px\<close>, \<open>py\<close>; the entity
  interfaces, told apart by their \<open>type\<close> tag in the source, are the constructors of
  one datatype, with the fields in the order of the interface.
\<close>

record DxfPoint =
  px :: real
  py :: real

datatype DxfEntity =
    LINE DxfPoint DxfPoint
  | CIRCLE DxfPoint real
  | ARC DxfPoint real real real
  | POLYLINE "DxfPoint list" bool

record DxfDocument =
  entities :: "DxfEntity list"
  warnings :: "string list"

record DxfBounds =
  minX :: real
  minY :: real
  maxX :: real
  maxY :: real

section \<open>The parser (src/dxf/parser.ts)\<close>

record DxfGroup =
  group_code :: int
  group_value :: string

subsection \<open>String primitives of the runtime\<close>

text \<open>
  \<open>String.prototype.trim\<close>, \<open>Number.parseInt(_, 10)\<close> and \<open>Number.parseFloat\<close>
  on code units below 256. White space and line terminators in that range are
  TAB, LF, VT, FF, CR, SP and NBSP.
\<close>

definition isWhiteSpace :: "char \<Rightarrow> bool" where
  "isWhiteSpace c = (of_char c \<in> {9, 10, 11, 12, 13, 32, 160 :: nat})"

definition trim :: "string \<Rightarrow> string" where
  "trim s = rev (dropWhile isWhiteSpace (rev (dropWhile isWhiteSpace s)))"

definition isDigit :: "char \<Rightarrow> bool" where
  "isDigit c = (48 \<le> (of_char c :: nat) \<and> (of_char c :: nat) \<le> 57)"

definition digitValue :: "char \<Rightarrow> nat" where
  "digitValue c = of_char c - 48"

fun digitsValue :: "nat \<Rightarrow> string \<Rightarrow> nat" where
  "digitsValue acc [] = acc"
| "digitsValue acc (c # cs) = digitsValue (10 * acc + digitValue c) cs"

text \<open>The sign prefix common to both number parsers: the factor and the rest.\<close>

fun takeSign :: "string \<Rightarrow> int \<times> string" where
  "takeSign [] = (1, [])"
| "takeSign (c # cs) =
     (if c = CHR ''-'' then (-1, cs) else if c = CHR ''+'' then (1, cs) else (1, c # cs))"

text \<open>\<open>Number.parseInt(s, 10)\<close>; \<open>None\<close> is \<open>NaN\<close>.\<close>

definition parseInt :: "string \<Rightarrow> int option" where
  "parseInt s =
     (let (sign, rest) = takeSign (dropWhile isWhiteSpace s);
          digits = takeWhile isDigit rest
      in if digits = [] then None else Some (sign * int (digitsValue 0 digits)))"

datatype parsed_number = NaN | Infinite | Finite real

text \<open>The optional exponent part of a decimal literal: \<open>e\<close> or \<open>E\<close>, a sign, digits.
  Without digits the letter does not belong to the literal.\<close>

fun exponentPart :: "string \<Rightarrow> int" where
  "exponentPart [] = 0"
| "exponentPart (c # cs) =
     (if c = CHR ''e'' \<or> c = CHR ''E'' then
        (let (sign, rest) = takeSign cs; digits = takeWhile isDigit rest
         in if digits = [] then 0 else sign * int (digitsValue 0 digits))
      else 0)"

definition scale10 :: "real \<Rightarrow> int \<Rightarrow> real" where
  "scale10 v e = (if 0 \<le> e then v * 10 ^ nat e else v / 10 ^ nat (- e))"

text \<open>\<open>Number.parseFloat\<close>: the longest prefix that is a decimal literal, after
  leading white space.\<close>

definition parseFloat :: "string \<Rightarrow> parsed_number" where
  "parseFloat s =
     (let (sign, rest) = takeSign (dropWhile isWhiteSpace s) in
      if take 8 rest = ''Infinity'' then Infinite
      else
        let intDigits = takeWhile isDigit rest;
            afterInt = dropWhile isDigit rest;
            hasDot = (afterInt \<noteq> [] \<and> hd afterInt = CHR ''.'');
            fracDigits = (if hasDot then takeWhile isDigit (tl afterInt) else []);
            afterFrac = (if hasDot then dropWhile isDigit (tl afterInt) else afterInt)
        in if intDigits = [] \<and> fracDigits = [] then NaN
           else Finite (of_int sign *
                  scale10 (real (digitsValue 0 intDigits)
                           + real (digitsValue 0 fracDigits) / 10 ^ length fracDigits)
                          (exponentPart afterFrac)))"

definition parseNumber :: "string \<Rightarrow> real option" where
  "parseNumber v = (case parseFloat v of Finite parsed \<Rightarrow> Some parsed | _ \<Rightarrow> None)"

subsection \<open>Reading fields of an entity body\<close>

fun readNumber :: "DxfGroup list \<Rightarrow> int \<Rightarrow> real option" where
  "readNumber [] code = None"
| "readNumber (g # body) code =
     (if group_code g = code then parseNumber (group_value g) else readNumber body code)"

definition readPoint :: "DxfGroup list \<Rightarrow> int \<Rightarrow> int \<Rightarrow> DxfPoint option" where
  "readPoint body xCode yCode =
     (case (readNumber body xCode, readNumber body yCode) of
        (Some x, Some y) \<Rightarrow> Some \<lparr>px = x, py = y\<rparr>
      | _ \<Rightarrow> None)"

definition parseLine :: "DxfGroup list \<Rightarrow> DxfEntity option" where
  "parseLine body =
     (case (readPoint body 10 20, readPoint body 11 21) of
        (Some start, Some end) \<Rightarrow> Some (LINE start end)
      | _ \<Rightarrow> None)"

definition parseCircle :: "DxfGroup list \<Rightarrow> DxfEntity option" where
  "parseCircle body =
     (case (readPoint body 10 20, readNumber body 40) of
        (Some center, Some radius) \<Rightarrow>
          if radius \<le> 0 then None else Some (CIRCLE center radius)
      | _ \<Rightarrow> None)"

definition parseArc :: "DxfGroup list \<Rightarrow> DxfEntity option" where
  "parseArc body =
     (case (readPoint body 10 20, readNumber body 40, readNumber body 50, readNumber body 51) of
        (Some center, Some radius, Some startAngle, Some endAngle) \<Rightarrow>
          if radius \<le> 0 then None else Some (ARC center radius startAngle endAngle)
      | _ \<Rightarrow> None)"

text \<open>\<open>Math.trunc\<close>, to an integer.\<close>

definition trunc :: "real \<Rightarrow> int" where
  "trunc v = (if 0 \<le> v then \<lfloor>v\<rfloor> else \<lceil>v\<rceil>)"

text \<open>The loop of \<open>parseLwPolyline\<close> over the body: the pending X and the vertices.\<close>

fun lwVertices :: "DxfGroup list \<Rightarrow> real option \<Rightarrow> DxfPoint list \<Rightarrow> DxfPoint list" where
  "lwVertices [] pendingX vertices = vertices"
| "lwVertices (g # body) pendingX vertices =
     (if group_code g = 10 then lwVertices body (parseNumber (group_value g)) vertices
      else if group_code g = 20 \<and> pendingX \<noteq> None then
        (case parseNumber (group_value g) of
           Some y \<Rightarrow> lwVertices body None (vertices @ [\<lparr>px = the pendingX, py = y\<rparr>])
         | None \<Rightarrow> lwVertices body None vertices)
      else lwVertices body pendingX vertices)"

definition parseLwPolyline :: "DxfGroup list \<Rightarrow> DxfEntity option" where
  "parseLwPolyline body =
     (let vertices = lwVertices body None [];
          flags = (case readNumber body 70 of Some f \<Rightarrow> f | None \<Rightarrow> 0);
          closed = (trunc flags AND 1 = 1)
      in if length vertices < 2 then None else Some (POLYLINE vertices closed))"

subsection \<open>Cursor loops over the tag sequence\<close>

text \<open>
  The loop \<open>while (i < groups.length) { if (groups[i].code === 0) break; i += 1; }\<close>
  of \<open>parseSimpleEntity\<close> and of \<open>parseVertex\<close>: the index of the next code-0 record
  at or after \<open>i\<close>, or the length.
\<close>

function skipBody :: "DxfGroup list \<Rightarrow> nat \<Rightarrow> nat" where
  "skipBody groups i =
     (if i < length groups then
        (if group_code (groups ! i) = 0 then i else skipBody groups (i + 1))
      else i)"
  by pat_completeness auto
termination
  by (relation "measure (\<lambda>(groups, i). length groups - i)") auto

declare skipBody.simps [simp del]

text \<open>\<open>groups.slice(from, to)\<close> for indices within the array.\<close>

definition slice :: "'a list \<Rightarrow> nat \<Rightarrow> nat \<Rightarrow> 'a list" where
  "slice xs from to = take (to - from) (drop from xs)"

definition parseSimpleEntity :: "DxfGroup list \<Rightarrow> nat \<Rightarrow> DxfEntity option \<times> nat" where
  "parseSimpleEntity groups startIndex =
     (if \<not> startIndex < length groups then (None, startIndex + 1)
      else
        let i = skipBody groups (startIndex + 1);
            entityType = group_value (groups ! startIndex);
            body = slice groups (startIndex + 1) i
        in if entityType = ''LINE'' then (parseLine body, i)
           else if entityType = ''LWPOLYLINE'' then (parseLwPolyline body, i)
           else if entityType = ''CIRCLE'' then (parseCircle body, i)
           else if entityType = ''ARC'' then (parseArc body, i)
           else (None, i))"

definition parseVertex :: "DxfGroup list \<Rightarrow> nat \<Rightarrow> DxfPoint option \<times> nat" where
  "parseVertex groups startIndex =
     (let i = skipBody groups (startIndex + 1);
          body = slice groups (startIndex + 1) i
      in (readPoint body 10 20, i))"

text \<open>The first loop of \<open>parsePolylineEntity\<close>: up to the next code-0 record, keeping
  the last flags field (code 70).\<close>

function polylineFlags :: "DxfGroup list \<Rightarrow> nat \<Rightarrow> int \<Rightarrow> nat \<times> int" where
  "polylineFlags groups i flags =
     (if i < length groups then
        (if group_code (groups ! i) = 0 then (i, flags)
         else polylineFlags groups (i + 1)
                (if group_code (groups ! i) = 70
                 then trunc (case parseNumber (group_value (groups ! i)) of
                               Some f \<Rightarrow> f | None \<Rightarrow> 0)
                 else flags))
      else (i, flags))"
  by pat_completeness auto
termination
  by (relation "measure (\<lambda>(groups, i, flags). length groups - i)") auto

declare polylineFlags.simps [simp del]

lemma skipBody_ge: "i \<le> skipBody groups i"
proof (induction groups i rule: skipBody.induct)
  case (1 groups i)
  show ?case
  proof (cases "i < length groups \<and> group_code (groups ! i) \<noteq> 0")
    case True
    then have "skipBody groups i = skipBody groups (i + 1)"
      by (subst skipBody.simps) simp
    moreover have "i + 1 \<le> skipBody groups (i + 1)"
      using True "1.IH" by simp
    ultimately show ?thesis by simp
  next
    case False
    then show ?thesis by (subst skipBody.simps) auto
  qed
qed

lemma parseVertex_next: "startIndex < snd (parseVertex groups startIndex)"
  using skipBody_ge [of "startIndex + 1" groups] by (simp add: parseVertex_def Let_def)

text \<open>The second loop of \<open>parsePolylineEntity\<close>: the VERTEX records up to SEQEND.\<close>

function polylineVertices :: "DxfGroup list \<Rightarrow> nat \<Rightarrow> DxfPoint list \<Rightarrow> nat \<times> DxfPoint list" where
  "polylineVertices groups i points =
     (if i < length groups then
        (if group_code (groups ! i) \<noteq> 0 then polylineVertices groups (i + 1) points
         else if group_value (groups ! i) = ''VERTEX'' then
           polylineVertices groups (snd (parseVertex groups i))
             (case fst (parseVertex groups i) of
                Some point \<Rightarrow> points @ [point] | None \<Rightarrow> points)
         else if group_value (groups ! i) = ''SEQEND'' then (i + 1, points)
         else (i, points))
      else (i, points))"
  by pat_completeness auto
termination
proof (relation "measure (\<lambda>(groups, i, points). length groups - i)")
  fix groups :: "DxfGroup list" and i :: nat and points :: "DxfPoint list"
  assume "i < length groups"
  then show "((groups, snd (parseVertex groups i),
               case fst (parseVertex groups i) of None \<Rightarrow> points | Some point \<Rightarrow> points @ [point]),
              groups, i, points) \<in> measure (\<lambda>(groups, i, points). length groups - i)"
    using parseVertex_next [of i groups] by simp
qed auto

declare polylineVertices.simps [simp del]

definition parsePolylineEntity :: "DxfGroup list \<Rightarrow> nat \<Rightarrow> DxfEntity option \<times> nat" where
  "parsePolylineEntity groups startIndex =
     (let (i, flags) = polylineFlags groups (startIndex + 1) 0;
          (i, points) = polylineVertices groups i []
      in if length points < 2 then (None, i)
         else (Some (POLYLINE points (flags AND 1 = 1)), i))"

subsection \<open>Tag scanner\<close>

text \<open>\<open>raw.replace(/\r\n/g, "\n")\<close> and \<open>.replace(/\r/g, "\n")\<close>.\<close>

fun replaceCRLF :: "string \<Rightarrow> string" where
  "replaceCRLF (c # d # cs) =
     (if c = CHR 0x0D \<and> d = CHR 0x0A then CHR 0x0A # replaceCRLF cs
      else c # replaceCRLF (d # cs))"
| "replaceCRLF cs = cs"

definition replaceCR :: "string \<Rightarrow> string" where
  "replaceCR s = map (\<lambda>c. if c = CHR 0x0D then CHR 0x0A else c) s"

text \<open>\<open>.split("\n")\<close>: the pieces between separators; never empty.\<close>

fun split :: "char \<Rightarrow> string \<Rightarrow> string list" where
  "split sep [] = [[]]"
| "split sep (c # cs) =
     (if c = sep then [] # split sep cs
      else (case split sep cs of
              piece # pieces \<Rightarrow> (c # piece) # pieces
            | [] \<Rightarrow> [[c]]))"

text \<open>The loop \<open>for (i = 0; i + 1 < lines.length; i += 2)\<close> of \<open>parseGroups\<close>,
  on the lines from index \<open>i\<close> on.\<close>

fun groupLines :: "string list \<Rightarrow> DxfGroup list" where
  "groupLines (codeLine # valueLine # rest) =
     (let codeText = trim codeLine in
      if codeText = [] then groupLines rest
      else (case parseInt codeText of
              None \<Rightarrow> groupLines rest
            | Some code \<Rightarrow>
                \<lparr>group_code = code, group_value = trim valueLine\<rparr> # groupLines rest))"
| "groupLines rest = []"

definition parseGroups :: "string \<Rightarrow> DxfGroup list" where
  "parseGroups raw = groupLines (split (CHR 0x0A) (replaceCR (replaceCRLF raw)))"

subsection \<open>Section walker\<close>

text \<open>
  The state of the loop of \<open>parseDxf\<close>: the cursor \<open>i\<close>, \<open>inEntitiesSection\<close> and
  the entities pushed so far. \<open>walkStep\<close> is one iteration of the loop body, entered
  with \<open>i < groups.length\<close>.
\<close>

type_synonym walk_state = "nat \<times> bool \<times> DxfEntity list"

definition push :: "'a list \<Rightarrow> 'a option \<Rightarrow> 'a list" where
  "push xs parsed = (case parsed of Some x \<Rightarrow> xs @ [x] | None \<Rightarrow> xs)"

definition walkStep :: "DxfGroup list \<Rightarrow> walk_state \<Rightarrow> walk_state" where
  "walkStep groups st =
     (let (i, inEntitiesSection, ents) = st; group = groups ! i in
      if group_code group = 0 \<and> group_value group = ''SECTION'' then
        (i + 2,
         i + 1 < length groups \<and> group_code (groups ! (i + 1)) = 2
           \<and> group_value (groups ! (i + 1)) = ''ENTITIES'',
         ents)
      else if group_code group = 0 \<and> group_value group = ''ENDSEC'' then
        (i + 1, False, ents)
      else if \<not> inEntitiesSection \<or> group_code group \<noteq> 0 then
        (i + 1, inEntitiesSection, ents)
      else if group_value group = ''POLYLINE'' then
        (let parsed = parsePolylineEntity groups i
         in (snd parsed, inEntitiesSection, push ents (fst parsed)))
      else
        (let parsed = parseSimpleEntity groups i
         in (snd parsed, inEntitiesSection, push ents (fst parsed))))"

lemma polylineFlags_ge: "i \<le> fst (polylineFlags groups i flags)"
proof (induction groups i flags rule: polylineFlags.induct)
  case (1 groups i flags)
  show ?case
  proof (cases "i < length groups \<and> group_code (groups ! i) \<noteq> 0")
    case True
    then show ?thesis
      using "1.IH" by (subst polylineFlags.simps) (simp add: Suc_leD)
  next
    case False
    then show ?thesis by (subst polylineFlags.simps) auto
  qed
qed

lemma polylineVertices_ge: "i \<le> fst (polylineVertices groups i points)"
proof (induction groups i points rule: polylineVertices.induct)
  case (1 groups i points)
  show ?case
  proof (cases "i < length groups")
    case False
    then show ?thesis by (subst polylineVertices.simps) simp
  next
    case inside: True
    show ?thesis
    proof (cases "group_code (groups ! i) \<noteq> 0")
      case True
      then show ?thesis
        using inside "1.IH"(1) by (subst polylineVertices.simps) (simp add: Suc_leD)
    next
      case marker: False
      show ?thesis
      proof (cases "group_value (groups ! i) = ''VERTEX''")
        case True
        have "snd (parseVertex groups i) \<le>
                fst (polylineVertices groups (snd (parseVertex groups i))
                  (case fst (parseVertex groups i) of
                     Some point \<Rightarrow> points @ [point] | None \<Rightarrow> points))"
          using inside marker True "1.IH"(2) by simp
        then show ?thesis
          using inside marker True parseVertex_next [of i groups]
          by (subst polylineVertices.simps) simp
      next
        case False
        then show ?thesis
          using inside marker by (subst polylineVertices.simps) simp
      qed
    qed
  qed
qed

lemma parsePolylineEntity_next: "startIndex < snd (parsePolylineEntity groups startIndex)"
proof -
  obtain i flags where hdr: "polylineFlags groups (startIndex + 1) 0 = (i, flags)"
    by (cases "polylineFlags groups (startIndex + 1) 0")
  obtain j points where body: "polylineVertices groups i [] = (j, points)"
    by (cases "polylineVertices groups i []")
  have "startIndex + 1 \<le> i"
    using polylineFlags_ge [of "startIndex + 1" groups 0] hdr by simp
  moreover have "i \<le> j"
    using polylineVertices_ge [of i groups "[]"] body by simp
  ultimately show ?thesis
    using hdr body by (simp add: parsePolylineEntity_def)
qed

lemma parseSimpleEntity_next: "startIndex < snd (parseSimpleEntity groups startIndex)"
  using skipBody_ge [of "startIndex + 1" groups]
  by (simp add: parseSimpleEntity_def Let_def)

lemma walkStep_cursor: "i < fst (walkStep groups (i, inSection, ents))"
  using parsePolylineEntity_next [of i groups] parseSimpleEntity_next [of i groups]
  by (simp add: walkStep_def Let_def)

text \<open>The loop \<open>for (let i = 0; i < groups.length; )\<close> of \<open>parseDxf\<close>.\<close>

function walk :: "DxfGroup list \<Rightarrow> walk_state \<Rightarrow> walk_state" where
  "walk groups (i, inEntitiesSection, ents) =
     (if i < length groups then walk groups (walkStep groups (i, inEntitiesSection, ents))
      else (i, inEntitiesSection, ents))"
  by pat_completeness auto
termination
proof (relation "measure (\<lambda>(groups, st). length groups - fst st)")
  fix groups :: "DxfGroup list" and i :: nat and inSection :: bool and ents :: "DxfEntity list"
  assume "i < length groups"
  then show "((groups, walkStep groups (i, inSection, ents)), groups, i, inSection, ents)
               \<in> measure (\<lambda>(groups, st). length groups - fst st)"
    using walkStep_cursor [of i groups inSection ents] by simp
qed simp

declare walk.simps [simp del]

definition binaryWarning :: string where
  "binaryWarning = ''This file appears to be binary DXF. Rendering may be incomplete.''"

definition parseDxf :: "string \<Rightarrow> DxfDocument" where
  "parseDxf raw =
     (let warnings = (if CHR 0x00 \<in> set raw then [binaryWarning] else []);
          groups = parseGroups raw;
          (i, inEntitiesSection, ents) = walk groups (0, False, [])
      in \<lparr>entities = ents, warnings = warnings\<rparr>)"

section \<open>The renderer (src/dxf/renderer.ts)\<close>

text \<open>
  The fields of \<open>DxfViewport\<close> carry the prefix \<open>view\<close> and the fields \<open>minX\<close>,
  \<open>minY\<close> of \<open>RenderTransform\<close> are named \<open>originX\<close>, \<open>originY\<close>, since
  \<open>RenderTransform\<close> and \<open>DxfBounds\<close> share them in the source. The optional
  \<open>measurement\<close> of \<open>DxfRenderOptions\<close> is read by \<open>drawMeasurement\<close> only and is
  left out. Of the canvas only \<open>clientWidth\<close> and \<open>clientHeight\<close> are read.
\<close>

record DxfViewport =
  viewZoom :: real
  viewPanX :: real
  viewPanY :: real

record DxfRenderOptions =
  lineColor :: string
  backgroundColor :: string
  padding :: real
  showGridlines :: bool
  gridSizeMm :: real
  viewport :: "DxfViewport option"

record RenderTransform =
  baseScale :: real
  offsetX :: real
  offsetY :: real
  originX :: real
  originY :: real
  canvasWidth :: real
  canvasHeight :: real
  centerX :: real
  centerY :: real
  zoom :: real
  panX :: real
  panY :: real

definition DEFAULT_VIEWPORT :: DxfViewport where
  "DEFAULT_VIEWPORT = \<lparr>viewZoom = 1, viewPanX = 0, viewPanY = 0\<rparr>"

definition clamp :: "real \<Rightarrow> real \<Rightarrow> real \<Rightarrow> real" where
  "clamp v lo hi = min hi (max lo v)"

definition degToRad :: "real \<Rightarrow> real" where
  "degToRad v = (v * pi) / 180"





subsection \<open>View transform\<close>

text \<open>\<open>Number.isFinite\<close> holds of every number of this model, so the pan is taken
  as it is.\<close>

definition createTransform ::
  "DxfBounds \<Rightarrow> real \<Rightarrow> real \<Rightarrow> real \<Rightarrow> DxfViewport \<Rightarrow> RenderTransform" where
  "createTransform bounds width height pad view =
     (let safePadding = min (max pad 0) (min width height / 2);
          worldWidth = max (maxX bounds - minX bounds) (1 / 1000000);
          worldHeight = max (maxY bounds - minY bounds) (1 / 1000000);
          scaleX = (width - safePadding * 2) / worldWidth;
          scaleY = (height - safePadding * 2) / worldHeight;
          scale = max (1 / 1000000) (min scaleX scaleY);
          drawnWidth = worldWidth * scale;
          drawnHeight = worldHeight * scale
      in \<lparr>baseScale = scale,
          offsetX = (width - drawnWidth) / 2,
          offsetY = (height - drawnHeight) / 2,
          originX = minX bounds,
          originY = minY bounds,
          canvasWidth = width,
          canvasHeight = height,
          centerX = width / 2,
          centerY = height / 2,
          zoom = clamp (viewZoom view) (2 / 100) 200,
          panX = viewPanX view,
          panY = viewPanY view\<rparr>)"

definition worldToBase :: "DxfPoint \<Rightarrow> RenderTransform \<Rightarrow> DxfPoint" where
  "worldToBase point t =
     \<lparr>px = (px point - originX t) * baseScale t + offsetX t,
      py = canvasHeight t - ((py point - originY t) * baseScale t + offsetY t)\<rparr>"

definition applyViewport :: "DxfPoint \<Rightarrow> RenderTransform \<Rightarrow> DxfPoint" where
  "applyViewport basePoint t =
     \<lparr>px = centerX t + (px basePoint - centerX t) * zoom t + panX t,
      py = centerY t + (py basePoint - centerY t) * zoom t + panY t\<rparr>"

definition toScreen :: "DxfPoint \<Rightarrow> RenderTransform \<Rightarrow> DxfPoint" where
  "toScreen point t = applyViewport (worldToBase point t) t"

definition screenToWorld :: "DxfPoint \<Rightarrow> RenderTransform \<Rightarrow> DxfPoint" where
  "screenToWorld screenPoint t =
     (let baseX = ((px screenPoint - panX t - centerX t) / zoom t) + centerX t;
          baseY = ((py screenPoint - panY t - centerY t) / zoom t) + centerY t
      in \<lparr>px = (baseX - offsetX t) / baseScale t + originX t,
          py = ((canvasHeight t - baseY) - offsetY t) / baseScale t + originY t\<rparr>)"

subsection \<open>Bounds and vertices\<close>

definition includePoint :: "DxfBounds option \<Rightarrow> DxfPoint \<Rightarrow> DxfBounds option" where
  "includePoint bounds point =
     (case bounds of
        None \<Rightarrow> Some \<lparr>minX = px point, minY = py point, maxX = px point, maxY = py point\<rparr>
      | Some b \<Rightarrow> Some \<lparr>minX = min (minX b) (px point), minY = min (minY b) (py point),
                        maxX = max (maxX b) (px point), maxY = max (maxY b) (py point)\<rparr>)"

definition includeCircle :: "DxfBounds option \<Rightarrow> DxfPoint \<Rightarrow> real \<Rightarrow> DxfBounds option" where
  "includeCircle bounds center radius =
     includePoint
       (includePoint bounds \<lparr>px = px center - radius, py = py center - radius\<rparr>)
       \<lparr>px = px center + radius, py = py center + radius\<rparr>"

fun boundsLoop :: "DxfEntity list \<Rightarrow> DxfBounds option \<Rightarrow> DxfBounds option" where
  "boundsLoop [] bounds = bounds"
| "boundsLoop (LINE start end # rest) bounds =
     boundsLoop rest (includePoint (includePoint bounds start) end)"
| "boundsLoop (POLYLINE points isClosed # rest) bounds =
     boundsLoop rest (foldl includePoint bounds points)"
| "boundsLoop (CIRCLE center radius # rest) bounds =
     boundsLoop rest (includeCircle bounds center radius)"
| "boundsLoop (ARC center radius startAngleDeg endAngleDeg # rest) bounds =
     boundsLoop rest (includeCircle bounds center radius)"

definition computeBounds :: "DxfEntity list \<Rightarrow> DxfBounds option" where
  "computeBounds ents = boundsLoop ents None"

definition getArcPoint :: "DxfPoint \<Rightarrow> real \<Rightarrow> real \<Rightarrow> DxfPoint" where
  "getArcPoint center radius angleDeg =
     (let angleRad = degToRad angleDeg
      in \<lparr>px = px center + radius * cos angleRad, py = py center + radius * sin angleRad\<rparr>)"

fun collectVertices :: "DxfEntity list \<Rightarrow> DxfPoint list" where
  "collectVertices [] = []"
| "collectVertices (LINE start end # rest) = [start, end] @ collectVertices rest"
| "collectVertices (POLYLINE points isClosed # rest) = points @ collectVertices rest"
| "collectVertices (ARC center radius startAngleDeg endAngleDeg # rest) =
     [getArcPoint center radius startAngleDeg, getArcPoint center radius endAngleDeg]
       @ collectVertices rest"
| "collectVertices (CIRCLE center radius # rest) = collectVertices rest"

definition createTransformForCanvas ::
  "DxfDocument \<Rightarrow> real \<Rightarrow> real \<Rightarrow> DxfRenderOptions \<Rightarrow> RenderTransform option" where
  "createTransformForCanvas doc width height options =
     (case computeBounds (entities doc) of
        None \<Rightarrow> None
      | Some bounds \<Rightarrow>
          Some (createTransform bounds width height (padding options)
                  (case viewport options of Some v \<Rightarrow> v | None \<Rightarrow> DEFAULT_VIEWPORT)))"

subsection \<open>Nearest vertex\<close>

text \<open>\<open>Math.round\<close>: to the nearest integer, halves upwards.\<close>

definition round_js :: "real \<Rightarrow> real" where
  "round_js v = of_int \<lfloor>v + 1 / 2\<rfloor>"

definition distanceSquared :: "RenderTransform \<Rightarrow> real \<Rightarrow> real \<Rightarrow> DxfPoint \<Rightarrow> real" where
  "distanceSquared t screenX screenY vertex =
     (let projected = toScreen vertex t;
          dx = px projected - screenX;
          dy = py projected - screenY
      in dx * dx + dy * dy)"

text \<open>The loop of \<open>findNearestVertex\<close> over the vertices, on \<open>bestDistanceSquared\<close>
  and \<open>bestPoint\<close>.\<close>

fun nearestLoop ::
  "RenderTransform \<Rightarrow> real \<Rightarrow> real \<Rightarrow> DxfPoint list \<Rightarrow> real \<Rightarrow> DxfPoint option
     \<Rightarrow> DxfPoint option" where
  "nearestLoop t screenX screenY [] bestDistanceSquared bestPoint = bestPoint"
| "nearestLoop t screenX screenY (vertex # rest) bestDistanceSquared bestPoint =
     (if distanceSquared t screenX screenY vertex \<le> bestDistanceSquared
      then nearestLoop t screenX screenY rest
             (distanceSquared t screenX screenY vertex) (Some vertex)
      else nearestLoop t screenX screenY rest bestDistanceSquared bestPoint)"

definition findNearestVertex ::
  "real \<Rightarrow> real \<Rightarrow> DxfDocument \<Rightarrow> DxfRenderOptions \<Rightarrow> real \<Rightarrow> real \<Rightarrow> real
     \<Rightarrow> DxfPoint option" where
  "findNearestVertex clientWidth clientHeight doc options screenX screenY maxDistancePx =
     (let width = max 10 (round_js clientWidth);
          height = max 10 (round_js clientHeight)
      in case createTransformForCanvas doc width height options of
           None \<Rightarrow> None
         | Some t \<Rightarrow>
             nearestLoop t screenX screenY (collectVertices (entities doc))
               ((max maxDistancePx 0)\<^sup>2) None)"

subsection \<open>Grid planner\<close>

text \<open>The loop over the four corners starts from \<open>\<plusminus>Infinity\<close>, which the first
  corner replaces.\<close>

definition computeVisibleWorldBounds :: "RenderTransform \<Rightarrow> DxfBounds" where
  "computeVisibleWorldBounds t =
     (let c0 = screenToWorld \<lparr>px = 0, py = 0\<rparr> t;
          c1 = screenToWorld \<lparr>px = canvasWidth t, py = 0\<rparr> t;
          c2 = screenToWorld \<lparr>px = 0, py = canvasHeight t\<rparr> t;
          c3 = screenToWorld \<lparr>px = canvasWidth t, py = canvasHeight t\<rparr> t
      in \<lparr>minX = min (min (min (px c0) (px c1)) (px c2)) (px c3),
          minY = min (min (min (py c0) (py c1)) (py c2)) (py c3),
          maxX = max (max (max (px c0) (px c1)) (px c2)) (px c3),
          maxY = max (max (max (py c0) (py c1)) (py c2)) (py c3)\<rparr>)"

text \<open>The loop \<open>while (span / step > maxLines) step *= 2\<close>; \<open>None\<close> when it does
  not end. The parameter \<open>span\<close> is named \<open>spanLength\<close>.\<close>

partial_function (option) doubleStep :: "real \<Rightarrow> real \<Rightarrow> real \<Rightarrow> real option" where
  "doubleStep step spanLength maxLines =
     (if spanLength / step > maxLines then doubleStep (step * 2) spanLength maxLines
      else Some step)"

definition normalizeGridStep :: "real \<Rightarrow> real \<Rightarrow> real \<Rightarrow> real option" where
  "normalizeGridStep baseStep spanLength maxLines =
     doubleStep (max baseStep (1 / 1000000)) spanLength maxLines"

text \<open>The first five statements of \<open>drawGrid\<close>: the steps chosen for the two axes.\<close>

definition drawGrid_steps :: "RenderTransform \<Rightarrow> real \<Rightarrow> real option \<times> real option" where
  "drawGrid_steps t baseGridSize =
     (let visible = computeVisibleWorldBounds t;
          spanX = max (maxX visible - minX visible) (1 / 1000000);
          spanY = max (maxY visible - minY visible) (1 / 1000000)
      in (normalizeGridStep baseGridSize spanX 500,
          normalizeGridStep baseGridSize spanY 500))"

subsection \<open>Arc tessellation\<close>








section \<open>Field constraints and sample inputs\<close>

text \<open>The constraints of the data model on each variant.\<close>

fun entityValid :: "DxfEntity \<Rightarrow> bool" where
  "entityValid (LINE start end) = True"
| "entityValid (CIRCLE center radius) = (0 < radius)"
| "entityValid (ARC center radius startAngleDeg endAngleDeg) = (0 < radius)"
| "entityValid (POLYLINE points isClosed) = (2 \<le> length points)"

text \<open>A file of the given lines, each ended by a line feed.\<close>

definition dxfText :: "string list \<Rightarrow> string" where
  "dxfText ls = concat (map (\<lambda>l. l @ [CHR 0x0A]) ls)"

definition sampleBinary :: string where
  "sampleBinary = dxfText [''999'', [CHR 0x00], ''0'', ''SECTION'', ''2'', ''ENTITIES'',
     ''0'', ''LINE'', ''10'', ''0'', ''20'', ''0'', ''11'', ''10'', ''21'', ''5'',
     ''0'', ''ENDSEC'', ''0'', ''EOF'']"

definition sampleGroups :: "DxfGroup list" where
  "sampleGroups =
     [\<lparr>group_code = 0, group_value = ''SECTION''\<rparr>,
      \<lparr>group_code = 2, group_value = ''ENTITIES''\<rparr>,
      \<lparr>group_code = 0, group_value = ''CIRCLE''\<rparr>,
      \<lparr>group_code = 10, group_value = ''1''\<rparr>,
      \<lparr>group_code = 20, group_value = ''2''\<rparr>,
      \<lparr>group_code = 40, group_value = ''3''\<rparr>,
      \<lparr>group_code = 0, group_value = ''ENDSEC''\<rparr>,
      \<lparr>group_code = 0, group_value = ''SECTION''\<rparr>,
      \<lparr>group_code = 2, group_value = ''OBJECTS''\<rparr>]"

definition sampleDrawing :: string where
  "sampleDrawing = dxfText [''0'', ''SECTION'', ''2'', ''ENTITIES'',
     ''0'', ''LINE'', ''10'', ''0'', ''20'', ''0'', ''11'', ''10'', ''21'', ''5'',
     ''0'', ''CIRCLE'', ''10'', ''1'', ''20'', ''2'', ''40'', ''-1'',
     ''0'', ''CIRCLE'', ''10'', ''1'', ''20'', ''2'', ''40'', ''3'',
     ''0'', ''ARC'', ''10'', ''0'', ''20'', ''0'', ''40'', ''2'', ''50'', ''350'', ''51'', ''10'',
     ''0'', ''LWPOLYLINE'', ''70'', ''1'', ''10'', ''0'', ''20'', ''0'', ''10'', ''1'', ''20'', ''1'',
     ''0'', ''POLYLINE'', ''70'', ''1'',
     ''0'', ''VERTEX'', ''10'', ''1'', ''20'', ''2'',
     ''0'', ''VERTEX'', ''10'', ''3'', ''20'', ''4'',
     ''0'', ''SEQEND'',
     ''0'', ''ENDSEC'', ''0'', ''EOF'']"

definition sampleEntities :: "DxfEntity list" where
  "sampleEntities =
     [LINE \<lparr>px = 0, py = 0\<rparr> \<lparr>px = 10, py = 5\<rparr>,
      CIRCLE \<lparr>px = 1, py = 2\<rparr> 3,
      ARC \<lparr>px = 0, py = 0\<rparr> 2 350 10,
      POLYLINE [\<lparr>px = 0, py = 0\<rparr>, \<lparr>px = 1, py = 1\<rparr>] True,
      POLYLINE [\<lparr>px = 1, py = 2\<rparr>, \<lparr>px = 3, py = 4\<rparr>] True]"


text \<open>The distance on the screen between a vertex, projected, and a screen point.\<close>

definition screenDistance :: "RenderTransform \<Rightarrow> real \<Rightarrow> real \<Rightarrow> DxfPoint \<Rightarrow> real" where
  "screenDistance t screenX screenY vertex =
     sqrt ((px (toScreen vertex t) - screenX)\<^sup>2 + (py (toScreen vertex t) - screenY)\<^sup>2)"

text \<open>A canvas of 10000 by 10000 pixels showing a drawing of the same extent at scale 1.\<close>

definition sampleTransform :: RenderTransform where
  "sampleTransform =
     createTransform \<lparr>minX = 0, minY = 0, maxX = 10000, maxY = 10000\<rparr> 10000 10000 0
       DEFAULT_VIEWPORT"

text \<open>One line from \<open>(0, 0)\<close> to \<open>(100, 100)\<close> on a canvas of 100 by 100 pixels.\<close>

definition sampleDocument :: DxfDocument where
  "sampleDocument =
     \<lparr>entities = [LINE \<lparr>px = 0, py = 0\<rparr> \<lparr>px = 100, py = 100\<rparr>], warnings = []\<rparr>"

definition emptyDocument :: DxfDocument where
  "emptyDocument = \<lparr>entities = [], warnings = []\<rparr>"

definition sampleOptions :: DxfRenderOptions where
  "sampleOptions =
     \<lparr>lineColor = ''#4c9aff'', backgroundColor = ''#10131a'', padding = 0,
      showGridlines = True, gridSizeMm = 1, viewport = None\<rparr>"

definition sampleFit :: RenderTransform where
  "sampleFit =
     createTransform \<lparr>minX = 0, minY = 0, maxX = 100, maxY = 100\<rparr> 100 100 0 DEFAULT_VIEWPORT"

section \<open>Properties of the parser\<close>

subsection \<open>Shared facts\<close>

lemma parseDxf_entities:
  "entities (parseDxf raw) = snd (snd (walk (parseGroups raw) (0, False, [])))"
  by (simp add: parseDxf_def Let_def split: prod.splits)

lemma parseDxf_warnings:
  "warnings (parseDxf raw) = (if CHR 0x00 \<in> set raw then [binaryWarning] else [])"
  by (simp add: parseDxf_def Let_def split: prod.splits)

lemma walk_unfold:
  "i < length groups \<Longrightarrow>
     walk groups (i, inSection, ents) = walk groups (walkStep groups (i, inSection, ents))"
  by (subst walk.simps) simp

lemma walk_done:
  "\<not> i < length groups \<Longrightarrow> walk groups (i, inSection, ents) = (i, inSection, ents)"
  by (subst walk.simps) simp

lemma sampleDrawing_parse:
  "parseDxf sampleDrawing = \<lparr>entities = sampleEntities, warnings = []\<rparr>"
  by code_simp

lemma sampleGroups_walk:
  "walk sampleGroups (0, False, []) = (9, False, [CIRCLE \<lparr>px = 1, py = 2\<rparr> 3])"
  by code_simp

subsection \<open>Binary detection\<close>

text \<open>
  C6. An input that contains a NUL byte gives a Document with at least one warning (the
  fixed binary warning), whatever is extracted; the entities are those of the walk over
  the tag records of the same input, as for any other input.
\<close>

theorem nul_byte_warns:
  "CHR 0x00 \<in> set raw \<Longrightarrow>
     1 \<le> length (warnings (parseDxf raw))
     \<and> binaryWarning \<in> set (warnings (parseDxf raw))
     \<and> entities (parseDxf raw) = snd (snd (walk (parseGroups raw) (0, False, [])))"
  by (simp add: parseDxf_warnings parseDxf_entities)

theorem nul_byte_warns_witness:
  "CHR 0x00 \<in> set sampleBinary
   \<and> 1 \<le> length (warnings (parseDxf sampleBinary))
   \<and> entities (parseDxf sampleBinary) = [LINE \<lparr>px = 0, py = 0\<rparr> \<lparr>px = 10, py = 5\<rparr>]
   \<and> CHR 0x00 \<in> set [CHR 0x00]
   \<and> 1 \<le> length (warnings (parseDxf [CHR 0x00]))
   \<and> entities (parseDxf [CHR 0x00]) = []"
proof -
  have nul: "CHR 0x00 \<in> set sampleBinary" by code_simp
  have ents: "entities (parseDxf sampleBinary) = [LINE \<lparr>px = 0, py = 0\<rparr> \<lparr>px = 10, py = 5\<rparr>]"
    by code_simp
  have nul0: "CHR 0x00 \<in> set [CHR 0x00]" by simp
  have ents0: "entities (parseDxf [CHR 0x00]) = []" by code_simp
  show ?thesis
    using nul ents nul0 ents0 nul_byte_warns [OF nul] nul_byte_warns [OF nul0] by simp
qed

subsection \<open>Field constraints\<close>

lemma parseCircle_Some:
  "parseCircle body = Some e \<Longrightarrow> \<exists>center radius. e = CIRCLE center radius \<and> 0 < radius"
  by (auto simp: parseCircle_def split: option.splits if_splits)

lemma parseArc_Some:
  "parseArc body = Some e \<Longrightarrow> \<exists>center radius s t. e = ARC center radius s t \<and> 0 < radius"
  by (auto simp: parseArc_def split: option.splits if_splits)

lemma parseLwPolyline_Some:
  "parseLwPolyline body = Some e \<Longrightarrow>
     \<exists>points isClosed. e = POLYLINE points isClosed \<and> 2 \<le> length points"
  by (auto simp: parseLwPolyline_def Let_def split: if_splits)

lemma parseLine_Some:
  "parseLine body = Some e \<Longrightarrow> \<exists>start end. e = LINE start end"
  by (auto simp: parseLine_def split: option.splits)

lemma parsePolylineEntity_Some:
  "fst (parsePolylineEntity groups i) = Some e \<Longrightarrow>
     \<exists>points isClosed. e = POLYLINE points isClosed \<and> 2 \<le> length points"
  by (auto simp: parsePolylineEntity_def Let_def split: prod.splits if_splits)

lemma parseSimpleEntity_valid:
  "fst (parseSimpleEntity groups i) = Some e \<Longrightarrow> entityValid e"
  by (auto simp: parseSimpleEntity_def Let_def split: if_splits
      dest: parseCircle_Some parseArc_Some parseLwPolyline_Some parseLine_Some)

lemma parsePolylineEntity_valid:
  "fst (parsePolylineEntity groups i) = Some e \<Longrightarrow> entityValid e"
  by (auto dest: parsePolylineEntity_Some)

lemma push_valid:
  "list_all entityValid ents \<Longrightarrow> (\<And>e. parsed = Some e \<Longrightarrow> entityValid e) \<Longrightarrow>
     list_all entityValid (push ents parsed)"
  by (cases parsed) (simp_all add: push_def)

lemma walkStep_valid:
  assumes "list_all entityValid ents"
  shows "list_all entityValid (snd (snd (walkStep groups (i, inSection, ents))))"
  using assms
  by (auto simp: walkStep_def Let_def intro!: push_valid
      dest: parseSimpleEntity_valid parsePolylineEntity_valid)

lemma walk_valid:
  "list_all entityValid ents \<Longrightarrow>
     list_all entityValid (snd (snd (walk groups (i, inSection, ents))))"
proof (induction groups "(i, inSection, ents)" arbitrary: i inSection ents rule: walk.induct)
  case (1 groups i inSection ents)
  show ?case
  proof (cases "i < length groups")
    case False
    then show ?thesis using "1.prems" by (simp add: walk_done)
  next
    case True
    obtain j s es where step: "walkStep groups (i, inSection, ents) = (j, s, es)"
      by (cases "walkStep groups (i, inSection, ents)")
    have "list_all entityValid es"
      using walkStep_valid [OF "1.prems", of groups i inSection] step by simp
    then have "list_all entityValid (snd (snd (walk groups (j, s, es))))"
      using "1.hyps" [OF True step] by simp
    then show ?thesis
      using True step by (simp add: walk_unfold)
  qed
qed

lemma parseDxf_valid: "list_all entityValid (entities (parseDxf raw))"
  using walk_valid [of "[]" "parseGroups raw" 0 False] by (simp add: parseDxf_entities)

text \<open>
  C7. Every entity of the Document returned by \<open>parseDxf\<close> satisfies the constraints of
  its variant: a circle and an arc have a strictly positive radius, a polyline has at
  least two points. Each extractor returns either no entity or one of its own variant
  that satisfies them.
\<close>

theorem parsed_entities_valid:
  "(\<forall>center radius. CIRCLE center radius \<in> set (entities (parseDxf raw)) \<longrightarrow> 0 < radius)
   \<and> (\<forall>center radius s t. ARC center radius s t \<in> set (entities (parseDxf raw)) \<longrightarrow> 0 < radius)
   \<and> (\<forall>points isClosed. POLYLINE points isClosed \<in> set (entities (parseDxf raw))
         \<longrightarrow> 2 \<le> length points)
   \<and> (parseCircle body = None \<or> (\<exists>center radius. parseCircle body = Some (CIRCLE center radius) \<and> 0 < radius))
   \<and> (parseArc body = None
        \<or> (\<exists>center radius s t. parseArc body = Some (ARC center radius s t) \<and> 0 < radius))
   \<and> (parseLwPolyline body = None
        \<or> (\<exists>points isClosed. parseLwPolyline body = Some (POLYLINE points isClosed)
              \<and> 2 \<le> length points))
   \<and> (fst (parsePolylineEntity groups i) = None
        \<or> (\<exists>points isClosed. fst (parsePolylineEntity groups i) = Some (POLYLINE points isClosed)
              \<and> 2 \<le> length points))"
proof -
  have doc: "\<And>e. e \<in> set (entities (parseDxf raw)) \<Longrightarrow> entityValid e"
    using parseDxf_valid [of raw] by (simp add: list_all_iff)
  have "\<And>center radius. CIRCLE center radius \<in> set (entities (parseDxf raw)) \<Longrightarrow> 0 < radius"
    using doc by fastforce
  moreover have "\<And>center radius s t.
      ARC center radius s t \<in> set (entities (parseDxf raw)) \<Longrightarrow> 0 < radius"
    using doc by fastforce
  moreover have "\<And>points isClosed.
      POLYLINE points isClosed \<in> set (entities (parseDxf raw)) \<Longrightarrow> 2 \<le> length points"
    using doc by fastforce
  moreover have "parseCircle body = None
      \<or> (\<exists>center radius. parseCircle body = Some (CIRCLE center radius) \<and> 0 < radius)"
    using parseCircle_Some [of body] by (cases "parseCircle body") auto
  moreover have "parseArc body = None
      \<or> (\<exists>center radius s t. parseArc body = Some (ARC center radius s t) \<and> 0 < radius)"
    using parseArc_Some [of body] by (cases "parseArc body") auto
  moreover have "parseLwPolyline body = None
      \<or> (\<exists>points isClosed. parseLwPolyline body = Some (POLYLINE points isClosed)
            \<and> 2 \<le> length points)"
    using parseLwPolyline_Some [of body] by (cases "parseLwPolyline body") auto
  moreover have "fst (parsePolylineEntity groups i) = None
      \<or> (\<exists>points isClosed. fst (parsePolylineEntity groups i) = Some (POLYLINE points isClosed)
            \<and> 2 \<le> length points)"
    using parsePolylineEntity_Some [of groups i]
    by (cases "fst (parsePolylineEntity groups i)") auto
  ultimately show ?thesis by blast
qed

theorem parsed_entities_valid_witness:
  "CIRCLE \<lparr>px = 1, py = 2\<rparr> 3 \<in> set (entities (parseDxf sampleDrawing)) \<and> (0::real) < 3
   \<and> ARC \<lparr>px = 0, py = 0\<rparr> 2 350 10 \<in> set (entities (parseDxf sampleDrawing))
   \<and> (0::real) < 2
   \<and> POLYLINE [\<lparr>px = 1, py = 2\<rparr>, \<lparr>px = 3, py = 4\<rparr>] True
       \<in> set (entities (parseDxf sampleDrawing))
   \<and> 2 \<le> length [\<lparr>px = 1, py = 2\<rparr>, \<lparr>px = 3, py = 4 :: real\<rparr>]"
proof -
  have c: "CIRCLE \<lparr>px = 1, py = 2\<rparr> 3 \<in> set (entities (parseDxf sampleDrawing))"
    and a: "ARC \<lparr>px = 0, py = 0\<rparr> 2 350 10 \<in> set (entities (parseDxf sampleDrawing))"
    and p: "POLYLINE [\<lparr>px = 1, py = 2\<rparr>, \<lparr>px = 3, py = 4\<rparr>] True
              \<in> set (entities (parseDxf sampleDrawing))"
    by (simp_all add: sampleDrawing_parse sampleEntities_def)
  show ?thesis
    using c a p parsed_entities_valid [of sampleDrawing] by blast
qed

subsection \<open>Section tracking\<close>

text \<open>
  C8. One iteration of the walk at a code-0 \<open>SECTION\<close> record followed by a code-2
  record sets the flag to whether that record's value is \<open>ENTITIES\<close> and advances past
  both; at a code-0 \<open>ENDSEC\<close> record it clears the flag and advances by one; and an
  iteration that changes the entity list was entered with the flag set, at a code-0
  record.
\<close>

theorem section_flag_tracking:
  "(group_code (groups ! i) = 0 \<and> group_value (groups ! i) = ''SECTION''
      \<and> i + 1 < length groups \<and> group_code (groups ! (i + 1)) = 2
     \<longrightarrow> walkStep groups (i, inSection, ents)
           = (i + 2, group_value (groups ! (i + 1)) = ''ENTITIES'', ents))
   \<and> (group_code (groups ! i) = 0 \<and> group_value (groups ! i) = ''ENDSEC''
     \<longrightarrow> walkStep groups (i, inSection, ents) = (i + 1, False, ents))
   \<and> (snd (snd (walkStep groups (i, inSection, ents))) \<noteq> ents
     \<longrightarrow> inSection \<and> group_code (groups ! i) = 0)"
  by (auto simp: walkStep_def Let_def push_def split: option.splits)

theorem section_flag_tracking_witness:
  "walkStep sampleGroups (0, False, []) = (2, True, [])
   \<and> walkStep sampleGroups (7, True, []) = (9, False, [])
   \<and> walkStep sampleGroups (6, True, []) = (7, False, [])
   \<and> snd (snd (walkStep sampleGroups (2, True, []))) \<noteq> []
   \<and> group_code (sampleGroups ! 2) = 0"
proof -
  have a: "group_code (sampleGroups ! 0) = 0 \<and> group_value (sampleGroups ! 0) = ''SECTION''
      \<and> 0 + 1 < length sampleGroups \<and> group_code (sampleGroups ! (0 + 1)) = 2"
    by (simp add: sampleGroups_def)
  have a': "(group_value (sampleGroups ! (0 + 1)) = ''ENTITIES'') = True"
    by (simp add: sampleGroups_def)
  have b: "group_code (sampleGroups ! 7) = 0 \<and> group_value (sampleGroups ! 7) = ''SECTION''
      \<and> 7 + 1 < length sampleGroups \<and> group_code (sampleGroups ! (7 + 1)) = 2"
    by (simp add: sampleGroups_def)
  have b': "(group_value (sampleGroups ! (7 + 1)) = ''ENTITIES'') = False"
    by (simp add: sampleGroups_def)
  have c: "group_code (sampleGroups ! 6) = 0 \<and> group_value (sampleGroups ! 6) = ''ENDSEC''"
    by (simp add: sampleGroups_def)
  have d: "snd (snd (walkStep sampleGroups (2, True, []))) \<noteq> []"
    by code_simp
  have s0: "walkStep sampleGroups (0, False, []) = (2, True, [])"
    using section_flag_tracking [of sampleGroups 0 False "[]"] a unfolding a' by simp
  have s7: "walkStep sampleGroups (7, True, []) = (9, False, [])"
    using section_flag_tracking [of sampleGroups 7 True "[]"] b unfolding b' by simp
  have s6: "walkStep sampleGroups (6, True, []) = (7, False, [])"
    using section_flag_tracking [of sampleGroups 6 True "[]"] c by simp
  have s2: "group_code (sampleGroups ! 2) = 0"
    using section_flag_tracking [of sampleGroups 2 True "[]"] d by blast
  show ?thesis
    using s0 s7 s6 d s2 by blast
qed

subsection \<open>Dropped entities\<close>








subsection \<open>Termination\<close>

lemma walk_iterates:
  "\<exists>n. n \<le> length groups - i
       \<and> walk groups (i, inSection, ents) = (walkStep groups ^^ n) (i, inSection, ents)
       \<and> (\<forall>m<n. fst ((walkStep groups ^^ m) (i, inSection, ents)) < length groups)
       \<and> length groups \<le> fst (walk groups (i, inSection, ents))"
proof (induction groups "(i, inSection, ents)" arbitrary: i inSection ents rule: walk.induct)
  case (1 groups i inSection ents)
  show ?case
  proof (cases "i < length groups")
    case False
    then have "walk groups (i, inSection, ents) = (i, inSection, ents)"
      by (simp add: walk_done)
    with False show ?thesis
      by (intro exI [of _ 0]) simp
  next
    case True
    obtain j s es where step: "walkStep groups (i, inSection, ents) = (j, s, es)"
      by (cases "walkStep groups (i, inSection, ents)")
    have adv: "i < j"
      using walkStep_cursor [of i groups inSection ents] step by simp
    have unfold: "walk groups (i, inSection, ents) = walk groups (j, s, es)"
      using True step by (simp add: walk_unfold)
    from "1.hyps" [OF True step] obtain n where
      n: "n \<le> length groups - j"
        "walk groups (j, s, es) = (walkStep groups ^^ n) (j, s, es)"
        "\<forall>m<n. fst ((walkStep groups ^^ m) (j, s, es)) < length groups"
        "length groups \<le> fst (walk groups (j, s, es))"
      by blast
    have "Suc n \<le> length groups - i"
      using n(1) adv True by linarith
    moreover have "walk groups (i, inSection, ents)
                     = (walkStep groups ^^ Suc n) (i, inSection, ents)"
      using unfold n(2) step by (simp add: funpow_swap1)
    moreover have "\<forall>m<Suc n. fst ((walkStep groups ^^ m) (i, inSection, ents)) < length groups"
    proof (intro allI impI)
      fix m assume "m < Suc n"
      show "fst ((walkStep groups ^^ m) (i, inSection, ents)) < length groups"
      proof (cases m)
        case 0
        then show ?thesis using True by simp
      next
        case (Suc k)
        then have "k < n" using \<open>m < Suc n\<close> by simp
        then show ?thesis
          using n(3) Suc step by (simp add: funpow_swap1)
      qed
    qed
    moreover have "length groups \<le> fst (walk groups (i, inSection, ents))"
      using unfold n(4) by simp
    ultimately show ?thesis by blast
  qed
qed

text \<open>
  C10. Each extraction helper returns a \<open>nextIndex\<close> strictly greater than the index it
  was called at, so every iteration of the walk strictly increases the cursor; the walk
  over a tag sequence is at most as many iterations as the sequence has records, each
  entered with the cursor inside the sequence, and it ends with the cursor at or past
  the end. \<open>parseDxf\<close> is that walk, so it returns a Document on every input.
\<close>

theorem parseDxf_terminates:
  "startIndex < snd (parseSimpleEntity groups startIndex)
   \<and> startIndex < snd (parsePolylineEntity groups startIndex)
   \<and> i < fst (walkStep groups (i, inSection, ents))
   \<and> (\<exists>n\<le>length groups.
         walk groups (0, False, []) = (walkStep groups ^^ n) (0, False, [])
         \<and> (\<forall>m<n. fst ((walkStep groups ^^ m) (0, False, [])) < length groups)
         \<and> length groups \<le> fst ((walkStep groups ^^ n) (0, False, [])))
   \<and> (\<exists>n\<le>length (parseGroups raw).
         entities (parseDxf raw)
           = snd (snd ((walkStep (parseGroups raw) ^^ n) (0, False, []))))"
proof -
  have iter: "\<exists>n\<le>length gs.
         walk gs (0, False, []) = (walkStep gs ^^ n) (0, False, [])
         \<and> (\<forall>m<n. fst ((walkStep gs ^^ m) (0, False, [])) < length gs)
         \<and> length gs \<le> fst ((walkStep gs ^^ n) (0, False, []))" for gs
  proof -
    from walk_iterates [of gs 0 False "[]"] obtain n where
      n: "n \<le> length gs - 0"
        "walk gs (0, False, []) = (walkStep gs ^^ n) (0, False, [])"
        "\<forall>m<n. fst ((walkStep gs ^^ m) (0, False, [])) < length gs"
        "length gs \<le> fst (walk gs (0, False, []))"
      by blast
    then show ?thesis by (intro exI [of _ n]) simp
  qed
  have doc: "\<exists>n\<le>length (parseGroups raw).
         entities (parseDxf raw)
           = snd (snd ((walkStep (parseGroups raw) ^^ n) (0, False, [])))"
    using iter [of "parseGroups raw"] by (auto simp: parseDxf_entities)
  show ?thesis
    using parseSimpleEntity_next [of startIndex groups]
      parsePolylineEntity_next [of startIndex groups]
      walkStep_cursor [of i groups inSection ents] iter [of groups] doc
    by blast
qed

theorem parseDxf_terminates_witness:
  "(\<exists>n\<le>9. walk sampleGroups (0, False, []) = (walkStep sampleGroups ^^ n) (0, False, [])
         \<and> (\<forall>m<n. fst ((walkStep sampleGroups ^^ m) (0, False, [])) < 9)
         \<and> 9 \<le> fst ((walkStep sampleGroups ^^ n) (0, False, [])))
   \<and> walk sampleGroups (0, False, []) = (9, False, [CIRCLE \<lparr>px = 1, py = 2\<rparr> 3])
   \<and> 2 < snd (parseSimpleEntity sampleGroups 2)"
proof -
  have len: "length sampleGroups = 9" by (simp add: sampleGroups_def)
  show ?thesis
    using parseDxf_terminates [of 2 sampleGroups 0 False "[]" "[]"] sampleGroups_walk
    unfolding len by blast
qed

section \<open>Properties of the renderer\<close>

subsection \<open>View transform\<close>





subsection \<open>Arc sweep\<close>








subsection \<open>Arc tessellation\<close>












subsection \<open>Grid step\<close>

lemma doubleStep_bounded:
  "0 < step \<Longrightarrow> spanLength / (step * 2 ^ n) \<le> maxLines \<Longrightarrow>
     \<exists>k\<le>n. doubleStep step spanLength maxLines = Some (step * 2 ^ k)
          \<and> spanLength / (step * 2 ^ k) \<le> maxLines
          \<and> (\<forall>j<k. maxLines < spanLength / (step * 2 ^ j))"
proof (induction n arbitrary: step)
  case 0
  then have "doubleStep step spanLength maxLines = Some step"
    by (subst doubleStep.simps) simp
  with 0 show ?case by simp
next
  case (Suc n)
  show ?case
  proof (cases "maxLines < spanLength / step")
    case False
    then have "doubleStep step spanLength maxLines = Some step"
      by (subst doubleStep.simps) simp
    with False show ?thesis by (intro exI [of _ 0]) simp
  next
    case True
    have unfold: "doubleStep step spanLength maxLines = doubleStep (step * 2) spanLength maxLines"
      using True by (subst doubleStep.simps) simp
    have "0 < step * 2" using Suc.prems(1) by simp
    moreover have "spanLength / (step * 2 * 2 ^ n) \<le> maxLines"
      using Suc.prems(2) by (simp add: mult.assoc)
    ultimately obtain k where k: "k \<le> n"
      "doubleStep (step * 2) spanLength maxLines = Some (step * 2 * 2 ^ k)"
      "spanLength / (step * 2 * 2 ^ k) \<le> maxLines"
      "\<forall>j<k. maxLines < spanLength / (step * 2 * 2 ^ j)"
      using Suc.IH [of "step * 2"] by blast
    have "\<forall>j<Suc k. maxLines < spanLength / (step * 2 ^ j)"
    proof (intro allI impI)
      fix j assume "j < Suc k"
      show "maxLines < spanLength / (step * 2 ^ j)"
      proof (cases j)
        case 0
        then show ?thesis using True by simp
      next
        case (Suc i)
        then have "i < k" using \<open>j < Suc k\<close> by simp
        then show ?thesis using k(4) Suc by (simp add: mult.assoc)
      qed
    qed
    then show ?thesis
      using k(1,2,3) unfold by (intro exI [of _ "Suc k"]) (simp add: mult.assoc)
  qed
qed

lemma doubling_reaches:
  assumes "0 < (step::real)" and "0 < (maxLines::real)"
  shows "\<exists>n. spanLength / (step * 2 ^ n) \<le> maxLines"
proof -
  obtain n where n: "spanLength / (step * maxLines) < (2::real) ^ n"
    using real_arch_pow [of 2 "spanLength / (step * maxLines)"] by auto
  have "spanLength < 2 ^ n * (step * maxLines)"
    using n assms by (simp add: pos_divide_less_eq)
  then have "spanLength / (step * 2 ^ n) < maxLines"
    using assms by (simp add: pos_divide_less_eq mult.commute mult.left_commute)
  then show ?thesis by (intro exI [of _ n]) simp
qed

lemma normalizeGridStep_result:
  assumes "0 < maxLines"
  shows "\<exists>k. normalizeGridStep baseStep spanLength maxLines
                = Some (max baseStep (1 / 1000000) * 2 ^ k)
          \<and> spanLength / (max baseStep (1 / 1000000) * 2 ^ k) \<le> maxLines
          \<and> (\<forall>j<k. maxLines < spanLength / (max baseStep (1 / 1000000) * 2 ^ j))"
proof -
  have pos: "0 < max baseStep (1 / 1000000)" by (simp add: less_max_iff_disj)
  obtain n where "spanLength / (max baseStep (1 / 1000000) * 2 ^ n) \<le> maxLines"
    using doubling_reaches [OF pos assms] by blast
  from doubleStep_bounded [OF pos this] show ?thesis
    unfolding normalizeGridStep_def by blast
qed

lemma normalizeGridStep_example: "normalizeGridStep 1 10000 500 = Some 32"
  by (simp add: normalizeGridStep_def doubleStep.simps)

lemma sampleTransform_visible:
  "computeVisibleWorldBounds sampleTransform
     = \<lparr>minX = 0, minY = 0, maxX = 10000, maxY = 10000\<rparr>"
  by (simp add: sampleTransform_def createTransform_def DEFAULT_VIEWPORT_def clamp_def
      computeVisibleWorldBounds_def screenToWorld_def Let_def)

text \<open>
  C2 as stated fails: with a 1-unit base step and a visible extent of 10000 units,
  \<open>drawGrid\<close> chooses the step 32 on both axes, although the doubling 2 already needs no
  more than 5000 lines.
\<close>

theorem grid_step_cap_counterexample:
  "drawGrid_steps sampleTransform 1 = (Some 32, Some 32)
   \<and> maxX (computeVisibleWorldBounds sampleTransform)
       - minX (computeVisibleWorldBounds sampleTransform) = 10000
   \<and> (10000::real) / (1 * 2 ^ 1) \<le> 5000
   \<and> (1::real) * 2 ^ 1 < 32"
  by (simp add: drawGrid_steps_def Let_def sampleTransform_visible normalizeGridStep_example)

text \<open>
  C2, amended. On each axis \<open>drawGrid\<close> chooses the base step (at least \<open>1e-6\<close>)
  doubled \<open>k\<close> times, where \<open>k\<close> is the least number of doublings for which the visible
  extent divided by the step is at most 500; the loop ends for every transform and base
  step.
\<close>

theorem grid_step_doubling:
  "\<exists>kx ky.
     drawGrid_steps t baseGridSize
       = (Some (max baseGridSize (1 / 1000000) * 2 ^ kx),
          Some (max baseGridSize (1 / 1000000) * 2 ^ ky))
     \<and> max (maxX (computeVisibleWorldBounds t) - minX (computeVisibleWorldBounds t)) (1 / 1000000)
         / (max baseGridSize (1 / 1000000) * 2 ^ kx) \<le> 500
     \<and> (\<forall>j<kx. 500 < max (maxX (computeVisibleWorldBounds t) - minX (computeVisibleWorldBounds t))
                          (1 / 1000000) / (max baseGridSize (1 / 1000000) * 2 ^ j))
     \<and> max (maxY (computeVisibleWorldBounds t) - minY (computeVisibleWorldBounds t)) (1 / 1000000)
         / (max baseGridSize (1 / 1000000) * 2 ^ ky) \<le> 500
     \<and> (\<forall>j<ky. 500 < max (maxY (computeVisibleWorldBounds t) - minY (computeVisibleWorldBounds t))
                          (1 / 1000000) / (max baseGridSize (1 / 1000000) * 2 ^ j))"
proof -
  let ?sx = "max (maxX (computeVisibleWorldBounds t) - minX (computeVisibleWorldBounds t)) (1 / 1000000)"
  let ?sy = "max (maxY (computeVisibleWorldBounds t) - minY (computeVisibleWorldBounds t)) (1 / 1000000)"
  obtain kx where kx: "normalizeGridStep baseGridSize ?sx 500
                = Some (max baseGridSize (1 / 1000000) * 2 ^ kx)"
      "?sx / (max baseGridSize (1 / 1000000) * 2 ^ kx) \<le> 500"
      "\<forall>j<kx. 500 < ?sx / (max baseGridSize (1 / 1000000) * 2 ^ j)"
    using normalizeGridStep_result [of 500 baseGridSize ?sx] by auto
  obtain ky where ky: "normalizeGridStep baseGridSize ?sy 500
                = Some (max baseGridSize (1 / 1000000) * 2 ^ ky)"
      "?sy / (max baseGridSize (1 / 1000000) * 2 ^ ky) \<le> 500"
      "\<forall>j<ky. 500 < ?sy / (max baseGridSize (1 / 1000000) * 2 ^ j)"
    using normalizeGridStep_result [of 500 baseGridSize ?sy] by auto
  have "drawGrid_steps t baseGridSize
       = (Some (max baseGridSize (1 / 1000000) * 2 ^ kx),
          Some (max baseGridSize (1 / 1000000) * 2 ^ ky))"
    using kx(1) ky(1) by (simp add: drawGrid_steps_def Let_def)
  then show ?thesis using kx(2,3) ky(2,3) by blast
qed

theorem grid_step_doubling_witness:
  "\<exists>kx ky.
     drawGrid_steps sampleTransform 1 = (Some (1 * 2 ^ kx), Some (1 * 2 ^ ky))
     \<and> (10000::real) / (1 * 2 ^ kx) \<le> 500
     \<and> (\<forall>j<kx. 500 < (10000::real) / (1 * 2 ^ j))
     \<and> (10000::real) / (1 * 2 ^ ky) \<le> 500
     \<and> (\<forall>j<ky. 500 < (10000::real) / (1 * 2 ^ j))"
  using grid_step_doubling [of sampleTransform 1] by (simp add: sampleTransform_visible)

subsection \<open>Nearest vertex\<close>

lemma distanceSquared_screenDistance:
  "distanceSquared t sx sy v = (screenDistance t sx sy v)\<^sup>2"
  by (simp add: distanceSquared_def screenDistance_def Let_def power2_eq_square)

lemma screenDistance_nonneg: "0 \<le> screenDistance t sx sy v"
  by (simp add: screenDistance_def)

lemma distanceSquared_le_iff:
  "0 \<le> r \<Longrightarrow> distanceSquared t sx sy v \<le> r\<^sup>2 \<longleftrightarrow> screenDistance t sx sy v \<le> r"
  using screenDistance_nonneg [of t sx sy v]
  by (simp add: distanceSquared_screenDistance power2_le_iff_abs_le)

lemma distanceSquared_mono:
  "distanceSquared t sx sy v \<le> distanceSquared t sx sy w
     \<longleftrightarrow> screenDistance t sx sy v \<le> screenDistance t sx sy w"
  by (simp add: screenDistance_def distanceSquared_def Let_def power2_eq_square)

lemma distanceSquared_strict:
  "distanceSquared t sx sy v < distanceSquared t sx sy w
     \<longleftrightarrow> screenDistance t sx sy v < screenDistance t sx sy w"
  by (simp add: screenDistance_def distanceSquared_def Let_def power2_eq_square)

lemma nearestLoop_keep:
  "(\<forall>v\<in>set vs. best < distanceSquared t sx sy v) \<Longrightarrow> nearestLoop t sx sy vs best bp = bp"
  by (induction vs arbitrary: best bp) auto

lemma nearestLoop_pick:
  "\<exists>v\<in>set vs. distanceSquared t sx sy v \<le> best \<Longrightarrow>
     \<exists>k<length vs. nearestLoop t sx sy vs best bp = Some (vs ! k)
       \<and> distanceSquared t sx sy (vs ! k) \<le> best
       \<and> (\<forall>j<length vs. distanceSquared t sx sy (vs ! k) \<le> distanceSquared t sx sy (vs ! j))
       \<and> (\<forall>j<length vs. k < j \<longrightarrow>
             distanceSquared t sx sy (vs ! k) < distanceSquared t sx sy (vs ! j))"
proof (induction vs arbitrary: best bp)
  case Nil
  then show ?case by simp
next
  case (Cons v rest)
  let ?d = "distanceSquared t sx sy"
  show ?case
  proof (cases "?d v \<le> best")
    case near: True
    show ?thesis
    proof (cases "\<exists>w\<in>set rest. ?d w \<le> ?d v")
      case True
      from Cons.IH [OF True, of "Some v"] obtain k where k: "k < length rest"
        "nearestLoop t sx sy rest (?d v) (Some v) = Some (rest ! k)"
        "?d (rest ! k) \<le> ?d v"
        "\<forall>j<length rest. ?d (rest ! k) \<le> ?d (rest ! j)"
        "\<forall>j<length rest. k < j \<longrightarrow> ?d (rest ! k) < ?d (rest ! j)"
        by blast
      have "nearestLoop t sx sy (v # rest) best bp = Some ((v # rest) ! Suc k)"
        using near k(2) by simp
      moreover have "?d ((v # rest) ! Suc k) \<le> best"
        using k(3) near by simp
      moreover have "\<forall>j<length (v # rest). ?d ((v # rest) ! Suc k) \<le> ?d ((v # rest) ! j)"
        using k(3,4) by (auto simp: nth_Cons split: nat.splits)
      moreover have "\<forall>j<length (v # rest). Suc k < j \<longrightarrow>
                       ?d ((v # rest) ! Suc k) < ?d ((v # rest) ! j)"
        using k(5) by (auto simp: nth_Cons split: nat.splits)
      ultimately show ?thesis
        using k(1) by (intro exI [of _ "Suc k"]) simp
    next
      case False
      then have far: "\<forall>w\<in>set rest. ?d v < ?d w" by auto
      have "nearestLoop t sx sy (v # rest) best bp = Some ((v # rest) ! 0)"
        using near nearestLoop_keep [OF far, of "Some v"] by simp
      moreover have "\<forall>j<length (v # rest). ?d ((v # rest) ! 0) \<le> ?d ((v # rest) ! j)"
        using far by (auto simp: nth_Cons split: nat.splits intro: less_imp_le)
      moreover have "\<forall>j<length (v # rest). 0 < j \<longrightarrow> ?d ((v # rest) ! 0) < ?d ((v # rest) ! j)"
        using far by (auto simp: nth_Cons split: nat.splits)
      ultimately show ?thesis
        using near by (intro exI [of _ 0]) simp
    qed
  next
    case False
    then have ex: "\<exists>w\<in>set rest. ?d w \<le> best" using Cons.prems by auto
    from Cons.IH [OF ex, of bp] obtain k where k: "k < length rest"
      "nearestLoop t sx sy rest best bp = Some (rest ! k)"
      "?d (rest ! k) \<le> best"
      "\<forall>j<length rest. ?d (rest ! k) \<le> ?d (rest ! j)"
      "\<forall>j<length rest. k < j \<longrightarrow> ?d (rest ! k) < ?d (rest ! j)"
      by blast
    have "nearestLoop t sx sy (v # rest) best bp = Some ((v # rest) ! Suc k)"
      using False k(2) by simp
    moreover have "?d ((v # rest) ! Suc k) \<le> best"
      using k(3) by simp
    moreover have "\<forall>j<length (v # rest). ?d ((v # rest) ! Suc k) \<le> ?d ((v # rest) ! j)"
      using k(3,4) False by (auto simp: nth_Cons split: nat.splits)
    moreover have "\<forall>j<length (v # rest). Suc k < j \<longrightarrow>
                     ?d ((v # rest) ! Suc k) < ?d ((v # rest) ! j)"
      using k(5) by (auto simp: nth_Cons split: nat.splits)
    ultimately show ?thesis
      using k(1) by (intro exI [of _ "Suc k"]) simp
  qed
qed

lemma includePoint_Some: "\<exists>b. includePoint bounds point = Some b"
  by (simp add: includePoint_def split: option.splits)

lemma foldl_includePoint_Some: "\<exists>b'. foldl includePoint (Some b) points = Some b'"
proof (induction points arbitrary: b)
  case Nil
  then show ?case by simp
next
  case (Cons p points)
  obtain c where "includePoint (Some b) p = Some c"
    using includePoint_Some by blast
  then show ?case using Cons.IH [of c] by simp
qed

lemma boundsLoop_Some: "\<exists>b'. boundsLoop ents (Some b) = Some b'"
proof (induction ents arbitrary: b)
  case Nil
  then show ?case by simp
next
  case (Cons e ents)
  show ?case
  proof (cases e)
    case (LINE start finish)
    obtain c where "includePoint (includePoint (Some b) start) finish = Some c"
      using includePoint_Some by blast
    then show ?thesis using LINE Cons.IH [of c] by simp
  next
    case (CIRCLE center radius)
    obtain c where "includeCircle (Some b) center radius = Some c"
      unfolding includeCircle_def using includePoint_Some by blast
    then show ?thesis using CIRCLE Cons.IH [of c] by simp
  next
    case (ARC center radius startAngleDeg endAngleDeg)
    obtain c where "includeCircle (Some b) center radius = Some c"
      unfolding includeCircle_def using includePoint_Some by blast
    then show ?thesis using ARC Cons.IH [of c] by simp
  next
    case (POLYLINE points isClosed)
    obtain c where "foldl includePoint (Some b) points = Some c"
      using foldl_includePoint_Some by blast
    then show ?thesis using POLYLINE Cons.IH [of c] by simp
  qed
qed

lemma boundsLoop_None: "boundsLoop ents None = None \<Longrightarrow> collectVertices ents = []"
proof (induction ents)
  case Nil
  then show ?case by simp
next
  case (Cons e ents)
  show ?case
  proof (cases e)
    case (LINE start finish)
    obtain c where "includePoint (includePoint None start) finish = Some c"
      using includePoint_Some by blast
    then show ?thesis using LINE Cons.prems boundsLoop_Some [of ents c] by simp
  next
    case (CIRCLE center radius)
    obtain c where "includeCircle None center radius = Some c"
      unfolding includeCircle_def using includePoint_Some by blast
    then show ?thesis using CIRCLE Cons.prems boundsLoop_Some [of ents c] by simp
  next
    case (ARC center radius startAngleDeg endAngleDeg)
    obtain c where "includeCircle None center radius = Some c"
      unfolding includeCircle_def using includePoint_Some by blast
    then show ?thesis using ARC Cons.prems boundsLoop_Some [of ents c] by simp
  next
    case (POLYLINE points isClosed)
    show ?thesis
    proof (cases points)
      case Nil
      then show ?thesis using POLYLINE Cons by simp
    next
      case (Cons p ps)
      obtain c where c: "includePoint None p = Some c"
        using includePoint_Some by blast
      obtain c' where "foldl includePoint (Some c) ps = Some c'"
        using foldl_includePoint_Some by blast
      then show ?thesis
        using POLYLINE Cons c \<open>boundsLoop (e # ents) None = None\<close> boundsLoop_Some [of ents c']
        by simp
    qed
  qed
qed

lemma no_transform_no_vertices:
  "createTransformForCanvas doc width height options = None \<Longrightarrow>
     collectVertices (entities doc) = []"
  using boundsLoop_None [of "entities doc"]
  by (simp add: createTransformForCanvas_def computeBounds_def split: option.splits)

lemma findNearestVertex_unfold:
  "findNearestVertex cw ch doc options sx sy maxPx =
     (case createTransformForCanvas doc (max 10 (round_js cw)) (max 10 (round_js ch)) options of
        None \<Rightarrow> None
      | Some t \<Rightarrow> nearestLoop t sx sy (collectVertices (entities doc)) ((max maxPx 0)\<^sup>2) None)"
  by (simp add: findNearestVertex_def Let_def)

text \<open>
  C5, amended. With the radius \<open>max(maxDistancePx, 0)\<close>: \<open>findNearestVertex\<close> returns
  none when there is no transform (then there is no candidate) or when every candidate
  is farther on the screen than the radius; otherwise it returns a candidate within the
  radius whose screen distance is minimal, and among the candidates at that distance the
  one enumerated last.
\<close>

theorem nearest_vertex:
  "(createTransformForCanvas doc (max 10 (round_js cw)) (max 10 (round_js ch)) options = None
      \<longrightarrow> collectVertices (entities doc) = []
          \<and> findNearestVertex cw ch doc options sx sy maxPx = None)
   \<and> (createTransformForCanvas doc (max 10 (round_js cw)) (max 10 (round_js ch)) options = Some t
        \<and> (\<forall>v\<in>set (collectVertices (entities doc)). max maxPx 0 < screenDistance t sx sy v)
      \<longrightarrow> findNearestVertex cw ch doc options sx sy maxPx = None)
   \<and> (createTransformForCanvas doc (max 10 (round_js cw)) (max 10 (round_js ch)) options = Some t
        \<and> (\<exists>v\<in>set (collectVertices (entities doc)). screenDistance t sx sy v \<le> max maxPx 0)
      \<longrightarrow> (\<exists>k<length (collectVertices (entities doc)).
            findNearestVertex cw ch doc options sx sy maxPx
              = Some (collectVertices (entities doc) ! k)
            \<and> screenDistance t sx sy (collectVertices (entities doc) ! k) \<le> max maxPx 0
            \<and> (\<forall>j<length (collectVertices (entities doc)).
                  screenDistance t sx sy (collectVertices (entities doc) ! k)
                    \<le> screenDistance t sx sy (collectVertices (entities doc) ! j))
            \<and> (\<forall>j<length (collectVertices (entities doc)). k < j \<longrightarrow>
                  screenDistance t sx sy (collectVertices (entities doc) ! k)
                    < screenDistance t sx sy (collectVertices (entities doc) ! j))))"
proof -
  let ?vs = "collectVertices (entities doc)"
  let ?r = "max maxPx 0"
  let ?T = "createTransformForCanvas doc (max 10 (round_js cw)) (max 10 (round_js ch)) options"
  have r: "0 \<le> ?r" by simp
  have none: "?vs = [] \<and> findNearestVertex cw ch doc options sx sy maxPx = None"
    if "?T = None"
    using that no_transform_no_vertices [OF that] by (simp add: findNearestVertex_unfold)
  have far: "findNearestVertex cw ch doc options sx sy maxPx = None"
    if "?T = Some t" "\<forall>v\<in>set ?vs. ?r < screenDistance t sx sy v"
  proof -
    have "\<forall>v\<in>set ?vs. ?r\<^sup>2 < distanceSquared t sx sy v"
      using that(2) distanceSquared_le_iff [OF r, of t sx sy] by (meson not_le)
    then show ?thesis
      using that(1) nearestLoop_keep [of ?vs "?r\<^sup>2" t sx sy None]
      by (simp add: findNearestVertex_unfold)
  qed
  have near: "\<exists>k<length ?vs.
            findNearestVertex cw ch doc options sx sy maxPx = Some (?vs ! k)
            \<and> screenDistance t sx sy (?vs ! k) \<le> ?r
            \<and> (\<forall>j<length ?vs. screenDistance t sx sy (?vs ! k) \<le> screenDistance t sx sy (?vs ! j))
            \<and> (\<forall>j<length ?vs. k < j \<longrightarrow>
                  screenDistance t sx sy (?vs ! k) < screenDistance t sx sy (?vs ! j))"
    if "?T = Some t" "\<exists>v\<in>set ?vs. screenDistance t sx sy v \<le> ?r"
  proof -
    have "\<exists>v\<in>set ?vs. distanceSquared t sx sy v \<le> ?r\<^sup>2"
      using that(2) distanceSquared_le_iff [OF r, of t sx sy] by blast
    from nearestLoop_pick [OF this, of None] obtain k where k: "k < length ?vs"
      "nearestLoop t sx sy ?vs (?r\<^sup>2) None = Some (?vs ! k)"
      "distanceSquared t sx sy (?vs ! k) \<le> ?r\<^sup>2"
      "\<forall>j<length ?vs. distanceSquared t sx sy (?vs ! k) \<le> distanceSquared t sx sy (?vs ! j)"
      "\<forall>j<length ?vs. k < j \<longrightarrow>
           distanceSquared t sx sy (?vs ! k) < distanceSquared t sx sy (?vs ! j)"
      by blast
    have "findNearestVertex cw ch doc options sx sy maxPx = Some (?vs ! k)"
      using that(1) k(2) by (simp add: findNearestVertex_unfold)
    moreover have "screenDistance t sx sy (?vs ! k) \<le> ?r"
      using k(3) distanceSquared_le_iff [OF r] by blast
    moreover have "\<forall>j<length ?vs.
        screenDistance t sx sy (?vs ! k) \<le> screenDistance t sx sy (?vs ! j)"
      using k(4) by (simp add: distanceSquared_mono)
    moreover have "\<forall>j<length ?vs. k < j \<longrightarrow>
        screenDistance t sx sy (?vs ! k) < screenDistance t sx sy (?vs ! j)"
      using k(5) by (simp add: distanceSquared_strict)
    ultimately show ?thesis using k(1) by blast
  qed
  show ?thesis using none far near by blast
qed

lemma sampleFit_transform:
  "createTransformForCanvas sampleDocument (max 10 (round_js 100)) (max 10 (round_js 100))
     sampleOptions = Some sampleFit"
proof -
  have "round_js 100 = 100" by (simp add: round_js_def)
  then show ?thesis
    by (simp add: createTransformForCanvas_def computeBounds_def includePoint_def
        sampleDocument_def sampleOptions_def sampleFit_def)
qed

lemma sampleFit_toScreen:
  "toScreen p sampleFit = \<lparr>px = px p, py = 100 - py p\<rparr>"
  by (simp add: sampleFit_def createTransform_def DEFAULT_VIEWPORT_def clamp_def
      toScreen_def applyViewport_def worldToBase_def Let_def)

text \<open>
  C5 as stated fails for a negative radius: with \<open>maxDistancePx = -1\<close> no candidate is
  within the radius, yet the vertex that lies exactly on the screen point is returned.
\<close>

theorem nearest_vertex_negative_radius_counterexample:
  "findNearestVertex 100 100 sampleDocument sampleOptions 0 100 (- 1) = Some \<lparr>px = 0, py = 0\<rparr>
   \<and> collectVertices (entities sampleDocument) = [\<lparr>px = 0, py = 0\<rparr>, \<lparr>px = 100, py = 100\<rparr>]
   \<and> - 1 < screenDistance sampleFit 0 100 \<lparr>px = 0, py = 0\<rparr>
   \<and> - 1 < screenDistance sampleFit 0 100 \<lparr>px = 100, py = 100\<rparr>"
proof -
  have vs: "collectVertices (entities sampleDocument)
              = [\<lparr>px = 0, py = 0\<rparr>, \<lparr>px = 100, py = 100\<rparr>]"
    by (simp add: sampleDocument_def)
  have "findNearestVertex 100 100 sampleDocument sampleOptions 0 100 (- 1)
          = Some \<lparr>px = 0, py = 0\<rparr>"
    by (simp add: findNearestVertex_unfold sampleFit_transform vs distanceSquared_def
        sampleFit_toScreen Let_def)
  moreover have "- 1 < screenDistance sampleFit 0 100 v" for v
    using screenDistance_nonneg [of sampleFit 0 100 v] by linarith
  ultimately show ?thesis using vs by simp
qed

theorem nearest_vertex_witness:
  "findNearestVertex 100 100 sampleDocument sampleOptions 3 100 14 = Some \<lparr>px = 0, py = 0\<rparr>
   \<and> screenDistance sampleFit 3 100 \<lparr>px = 0, py = 0\<rparr> \<le> 14
   \<and> findNearestVertex 100 100 sampleDocument sampleOptions 50 50 100
       = Some \<lparr>px = 100, py = 100\<rparr>
   \<and> screenDistance sampleFit 50 50 \<lparr>px = 0, py = 0\<rparr>
       = screenDistance sampleFit 50 50 \<lparr>px = 100, py = 100\<rparr>
   \<and> findNearestVertex 100 100 sampleDocument sampleOptions 50 50 14 = None
   \<and> (\<exists>k<length (collectVertices (entities sampleDocument)).
         findNearestVertex 100 100 sampleDocument sampleOptions 3 100 14
           = Some (collectVertices (entities sampleDocument) ! k)
         \<and> screenDistance sampleFit 3 100 (collectVertices (entities sampleDocument) ! k) \<le> 14)
   \<and> findNearestVertex 100 100 emptyDocument sampleOptions 3 100 14 = None"
proof -
  have vs: "collectVertices (entities sampleDocument)
              = [\<lparr>px = 0, py = 0\<rparr>, \<lparr>px = 100, py = 100\<rparr>]"
    by (simp add: sampleDocument_def)
  have d0: "screenDistance sampleFit 3 100 \<lparr>px = 0, py = 0\<rparr> = 3"
    and d1: "screenDistance sampleFit 50 50 \<lparr>px = 0, py = 0\<rparr> = sqrt 5000"
    and d2: "screenDistance sampleFit 50 50 \<lparr>px = 100, py = 100\<rparr> = sqrt 5000"
    by (simp_all add: screenDistance_def sampleFit_toScreen)
  have big: "14 < sqrt 5000"
    by (rule real_less_rsqrt) simp
  have far: "\<forall>v\<in>set (collectVertices (entities sampleDocument)).
               max 14 0 < screenDistance sampleFit 50 50 v"
    using big by (simp add: vs d1 d2)
  have none: "findNearestVertex 100 100 sampleDocument sampleOptions 50 50 14 = None"
    using nearest_vertex [where doc = sampleDocument and cw = 100 and ch = 100 and options = sampleOptions
        and t = sampleFit and sx = 50 and sy = 50 and maxPx = 14]
      sampleFit_transform far by blast
  have a: "findNearestVertex 100 100 sampleDocument sampleOptions 3 100 14
             = Some \<lparr>px = 0, py = 0\<rparr>"
    by (simp add: findNearestVertex_unfold sampleFit_transform vs distanceSquared_def
        sampleFit_toScreen Let_def)
  have b: "findNearestVertex 100 100 sampleDocument sampleOptions 50 50 100
             = Some \<lparr>px = 100, py = 100\<rparr>"
    by (simp add: findNearestVertex_unfold sampleFit_transform vs distanceSquared_def
        sampleFit_toScreen Let_def)
  have close: "\<exists>v\<in>set (collectVertices (entities sampleDocument)).
                 screenDistance sampleFit 3 100 v \<le> max 14 0"
    by (simp add: vs d0)
  have near: "\<exists>k<length (collectVertices (entities sampleDocument)).
         findNearestVertex 100 100 sampleDocument sampleOptions 3 100 14
           = Some (collectVertices (entities sampleDocument) ! k)
         \<and> screenDistance sampleFit 3 100 (collectVertices (entities sampleDocument) ! k) \<le> 14"
    using nearest_vertex [where doc = sampleDocument and cw = 100 and ch = 100
        and options = sampleOptions and t = sampleFit and sx = 3 and sy = 100 and maxPx = 14]
      sampleFit_transform close by auto
  have noT: "createTransformForCanvas emptyDocument (max 10 (round_js 100)) (max 10 (round_js 100))
               sampleOptions = None"
    by (simp add: createTransformForCanvas_def computeBounds_def emptyDocument_def)
  have empty: "findNearestVertex 100 100 emptyDocument sampleOptions 3 100 14 = None"
    using nearest_vertex [where doc = emptyDocument and cw = 100 and ch = 100
        and options = sampleOptions and t = sampleFit and sx = 3 and sy = 100 and maxPx = 14]
      noT by blast
  show ?thesis using a b none d0 d1 d2 near empty by simp
qed

end
